theory Spec2Isabelle
  imports Complex_Main "HOL-Library.Log_Nat"
begin

section \<open>The PayPal fee and currency conversion calculator\<close>

text \<open>
  A shallow embedding of the two calculation functions of \<^verbatim>\<open>Currency_Converter.py\<close>:
  \<^verbatim>\<open>calculate_inr_from_usd\<close> (USD to INR) and \<^verbatim>\<open>calculate_usd_for_target_inr\<close>
  (target INR to the USD amount to invoice).

  Numbers. The source computes on Python floats, which are IEEE 754 binary64 numbers. The
  two functions are embedded twice, with the same structure, line by line:
  \<^item> over \<^typ>\<open>real\<close> (\<open>calculate_inr_from_usd\<close>, \<open>calculate_usd_for_target_inr\<close>):
    every arithmetic operation is the exact one. This embedding says which formula the
    code computes; the statements about it are statements over exact arithmetic.
  \<^item> over binary64 (\<open>calculate_inr_from_usd_f64\<close>, \<open>calculate_usd_for_target_inr_f64\<close>):
    every arithmetic operation rounds its exact result to the nearest binary64 number,
    ties to even, with subnormal numbers, overflow to the infinities, and NaN. This
    embedding says which number the code returns.

  Errors. Python's \<^verbatim>\<open>/\<close> raises \<^verbatim>\<open>ZeroDivisionError\<close> on a zero divisor, where HOL's
  \<open>x / 0\<close> is \<open>0\<close>. Every division of the source goes through \<open>py_truediv\<close>
  (\<open>py_truediv_f64\<close>), and a function that divides returns a value of \<open>py_error + _\<close>,
  with \<open>Inl\<close> for the raised exception.

  Effects. \<^verbatim>\<open>calculate_usd_for_target_inr\<close> calls \<^verbatim>\<open>st.error\<close>, which appends an error
  box to the page being rendered. The page is a list of elements that the function takes
  and returns.
\<close>

subsection \<open>Python division\<close>

datatype py_error = ZeroDivisionError

definition py_truediv :: "real \<Rightarrow> real \<Rightarrow> py_error + real" where
  "py_truediv a b = (if b = 0 then Inl ZeroDivisionError else Inr (a / b))"

subsection \<open>The page\<close>

datatype ui_element = StError string

type_synonym page = "ui_element list"

definition st_error :: "string \<Rightarrow> page \<Rightarrow> page" where
  "st_error msg pg = pg @ [StError msg]"

subsection \<open>USD to INR\<close>

text \<open>
  \<^verbatim>\<open>
  def calculate_inr_from_usd(amount_usd, paypal_fee_percent, paypal_fixed_fee_usd,
                             tax_percent, usd_to_inr_rate) -> float:
      net_after_paypal_percent = amount_usd * (1 - paypal_fee_percent / 100)
      net_after_paypal_fees = net_after_paypal_percent - paypal_fixed_fee_usd
      net_after_tax_usd = net_after_paypal_fees * (1 - tax_percent / 100)
      final_inr = net_after_tax_usd * usd_to_inr_rate
      return final_inr
  \<close>
\<close>

definition calculate_inr_from_usd ::
  "real \<Rightarrow> real \<Rightarrow> real \<Rightarrow> real \<Rightarrow> real \<Rightarrow> py_error + real" where
  "calculate_inr_from_usd amount_usd paypal_fee_percent paypal_fixed_fee_usd
       tax_percent usd_to_inr_rate =
     (case py_truediv paypal_fee_percent 100 of
        Inl e \<Rightarrow> Inl e
      | Inr fee_fraction \<Rightarrow>
          let net_after_paypal_percent = amount_usd * (1 - fee_fraction);
              net_after_paypal_fees = net_after_paypal_percent - paypal_fixed_fee_usd
          in (case py_truediv tax_percent 100 of
                Inl e \<Rightarrow> Inl e
              | Inr tax_fraction \<Rightarrow>
                  let net_after_tax_usd = net_after_paypal_fees * (1 - tax_fraction);
                      final_inr = net_after_tax_usd * usd_to_inr_rate
                  in Inr final_inr))"

subsection \<open>Target INR to USD\<close>

text \<open>
  \<^verbatim>\<open>
  def calculate_usd_for_target_inr(target_inr, paypal_fee_percent, paypal_fixed_fee_usd,
                                   tax_percent, usd_to_inr_rate) -> float:
      p = paypal_fee_percent / 100
      t = tax_percent / 100
      R = usd_to_inr_rate
      f = paypal_fixed_fee_usd
      denominator = R * (1 - t)
      if denominator == 0 or (1 - p) == 0:
          st.error("Invalid parameters. Please check your rates/fees.")
          return 0.0
      required_usd = ((target_inr / denominator) + f) / (1 - p)
      return required_usd
  \<close>
  The result is the returned number together with the page after the call.
\<close>

definition invalid_parameters_msg :: string where
  "invalid_parameters_msg = ''Invalid parameters. Please check your rates/fees.''"

definition calculate_usd_for_target_inr ::
  "real \<Rightarrow> real \<Rightarrow> real \<Rightarrow> real \<Rightarrow> real \<Rightarrow> page \<Rightarrow> py_error + (real \<times> page)" where
  "calculate_usd_for_target_inr target_inr paypal_fee_percent paypal_fixed_fee_usd
       tax_percent usd_to_inr_rate pg =
     (case py_truediv paypal_fee_percent 100 of
        Inl e \<Rightarrow> Inl e
      | Inr p \<Rightarrow>
          (case py_truediv tax_percent 100 of
             Inl e \<Rightarrow> Inl e
           | Inr t \<Rightarrow>
               let R = usd_to_inr_rate;
                   f = paypal_fixed_fee_usd;
                   denominator = R * (1 - t)
               in if denominator = 0 \<or> (1 - p) = 0
                  then Inr (0, st_error invalid_parameters_msg pg)
                  else (case py_truediv target_inr denominator of
                          Inl e \<Rightarrow> Inl e
                        | Inr target_usd \<Rightarrow>
                            (case py_truediv (target_usd + f) (1 - p) of
                               Inl e \<Rightarrow> Inl e
                             | Inr required_usd \<Rightarrow> Inr (required_usd, pg)))))"

section \<open>Binary64 arithmetic\<close>

text \<open>
  A Python float is a finite binary64 number, an infinity, or NaN. The finite numbers are
  embedded by their value; the two zeros of binary64 are one value, \<open>Num 0\<close>. The source
  only adds, subtracts, multiplies, divides and compares with \<open>== 0\<close>; none of these
  tells the zeros apart, since Python raises on a division by either zero.
\<close>

datatype f64 = Num real | PInf | NInf | NaN

subsection \<open>Rounding to nearest, ties to even\<close>

text \<open>\<open>rne x\<close> is the integer nearest to \<open>x\<close>, the even one when two are equally near.\<close>

definition rne :: "real \<Rightarrow> int" where
  "rne x = (let n = \<lfloor>x\<rfloor>; d = x - of_int n
            in if d < 1 / 2 then n
               else if 1 / 2 < d then n + 1
               else if even n then n else n + 1)"

text \<open>\<open>ilog2 x\<close> is \<open>\<lfloor>log\<^sub>2 x\<rfloor>\<close> for \<open>x > 0\<close>, computed from bit lengths.\<close>

definition ilog2 :: "real \<Rightarrow> int" where
  "ilog2 x = (if 1 \<le> x then bitlen \<lfloor>x\<rfloor> - 1 else - bitlen (\<lceil>1 / x\<rceil> - 1))"

text \<open>
  The exponent of the last place of the binary64 numbers around \<open>x\<close>: 53 significant
  bits, and no exponent below that of the subnormal numbers, \<open>-1074\<close>.
\<close>

definition ulp_exp :: "real \<Rightarrow> int" where
  "ulp_exp x = max (ilog2 \<bar>x\<bar>) (- 1022) - 52"

definition quantize :: "real \<Rightarrow> real" where
  "quantize x = (if x = 0 then 0
                 else of_int (rne (x / 2 powi ulp_exp x)) * 2 powi ulp_exp x)"

text \<open>A result that rounds to \<open>2\<^sup>1\<^sup>0\<^sup>2\<^sup>4\<close> or beyond in magnitude overflows to an infinity.\<close>

definition round64 :: "real \<Rightarrow> f64" where
  "round64 x = (let v = quantize x
                in if 2 ^ 1024 \<le> v then PInf
                   else if v \<le> - (2 ^ 1024) then NInf
                   else Num v)"

text \<open>A real is a finite binary64 number when rounding leaves it as it is.\<close>

definition is_binary64 :: "real \<Rightarrow> bool" where
  "is_binary64 x = (round64 x = Num x)"

subsection \<open>The operations of the source\<close>

fun f64_sub :: "f64 \<Rightarrow> f64 \<Rightarrow> f64" where
  "f64_sub (Num x) (Num y) = round64 (x - y)"
| "f64_sub (Num x) PInf = NInf"
| "f64_sub (Num x) NInf = PInf"
| "f64_sub PInf (Num y) = PInf"
| "f64_sub PInf NInf = PInf"
| "f64_sub PInf PInf = NaN"
| "f64_sub NInf (Num y) = NInf"
| "f64_sub NInf PInf = NInf"
| "f64_sub NInf NInf = NaN"
| "f64_sub NaN b = NaN"
| "f64_sub a NaN = NaN"

fun f64_add :: "f64 \<Rightarrow> f64 \<Rightarrow> f64" where
  "f64_add (Num x) (Num y) = round64 (x + y)"
| "f64_add (Num x) PInf = PInf"
| "f64_add (Num x) NInf = NInf"
| "f64_add PInf (Num y) = PInf"
| "f64_add PInf PInf = PInf"
| "f64_add PInf NInf = NaN"
| "f64_add NInf (Num y) = NInf"
| "f64_add NInf NInf = NInf"
| "f64_add NInf PInf = NaN"
| "f64_add NaN b = NaN"
| "f64_add a NaN = NaN"

fun f64_mul :: "f64 \<Rightarrow> f64 \<Rightarrow> f64" where
  "f64_mul (Num x) (Num y) = round64 (x * y)"
| "f64_mul (Num x) PInf = (if x = 0 then NaN else if 0 < x then PInf else NInf)"
| "f64_mul (Num x) NInf = (if x = 0 then NaN else if 0 < x then NInf else PInf)"
| "f64_mul PInf (Num y) = (if y = 0 then NaN else if 0 < y then PInf else NInf)"
| "f64_mul NInf (Num y) = (if y = 0 then NaN else if 0 < y then NInf else PInf)"
| "f64_mul PInf PInf = PInf"
| "f64_mul PInf NInf = NInf"
| "f64_mul NInf PInf = NInf"
| "f64_mul NInf NInf = PInf"
| "f64_mul NaN b = NaN"
| "f64_mul a NaN = NaN"

text \<open>
  The quotient for a nonzero divisor. \<open>py_truediv_f64\<close> raises on a zero divisor before it
  gets here, as Python does, whatever the dividend is.
\<close>

fun f64_div :: "f64 \<Rightarrow> f64 \<Rightarrow> f64" where
  "f64_div (Num x) (Num y) = round64 (x / y)"
| "f64_div (Num x) PInf = Num 0"
| "f64_div (Num x) NInf = Num 0"
| "f64_div PInf (Num y) = (if 0 < y then PInf else NInf)"
| "f64_div NInf (Num y) = (if 0 < y then NInf else PInf)"
| "f64_div PInf PInf = NaN"
| "f64_div PInf NInf = NaN"
| "f64_div NInf PInf = NaN"
| "f64_div NInf NInf = NaN"
| "f64_div NaN b = NaN"
| "f64_div a NaN = NaN"

definition py_truediv_f64 :: "f64 \<Rightarrow> f64 \<Rightarrow> py_error + f64" where
  "py_truediv_f64 a b = (if b = Num 0 then Inl ZeroDivisionError else Inr (f64_div a b))"

text \<open>Python's \<^verbatim>\<open>==\<close>, \<^verbatim>\<open><\<close> and \<^verbatim>\<open><=\<close>: every comparison with NaN is false.\<close>

fun f64_eq :: "f64 \<Rightarrow> f64 \<Rightarrow> bool" where
  "f64_eq (Num x) (Num y) = (x = y)"
| "f64_eq PInf PInf = True"
| "f64_eq NInf NInf = True"
| "f64_eq a b = False"

fun f64_lt :: "f64 \<Rightarrow> f64 \<Rightarrow> bool" where
  "f64_lt (Num x) (Num y) = (x < y)"
| "f64_lt (Num x) PInf = True"
| "f64_lt NInf (Num y) = True"
| "f64_lt NInf PInf = True"
| "f64_lt a b = False"

definition f64_le :: "f64 \<Rightarrow> f64 \<Rightarrow> bool" where
  "f64_le a b = (f64_lt a b \<or> f64_eq a b)"

subsection \<open>The two functions on binary64\<close>

text \<open>
  The same two functions as above, with the operations of binary64. The integer literals
  \<^verbatim>\<open>1\<close> and \<^verbatim>\<open>100\<close> of the source are converted to the floats \<open>1.0\<close> and \<open>100.0\<close>; the
  literal \<^verbatim>\<open>0.0\<close> is \<open>Num 0\<close>.
\<close>

definition calculate_inr_from_usd_f64 ::
  "f64 \<Rightarrow> f64 \<Rightarrow> f64 \<Rightarrow> f64 \<Rightarrow> f64 \<Rightarrow> py_error + f64" where
  "calculate_inr_from_usd_f64 amount_usd paypal_fee_percent paypal_fixed_fee_usd
       tax_percent usd_to_inr_rate =
     (case py_truediv_f64 paypal_fee_percent (Num 100) of
        Inl e \<Rightarrow> Inl e
      | Inr fee_fraction \<Rightarrow>
          let net_after_paypal_percent = f64_mul amount_usd (f64_sub (Num 1) fee_fraction);
              net_after_paypal_fees = f64_sub net_after_paypal_percent paypal_fixed_fee_usd
          in (case py_truediv_f64 tax_percent (Num 100) of
                Inl e \<Rightarrow> Inl e
              | Inr tax_fraction \<Rightarrow>
                  let net_after_tax_usd =
                        f64_mul net_after_paypal_fees (f64_sub (Num 1) tax_fraction);
                      final_inr = f64_mul net_after_tax_usd usd_to_inr_rate
                  in Inr final_inr))"

definition calculate_usd_for_target_inr_f64 ::
  "f64 \<Rightarrow> f64 \<Rightarrow> f64 \<Rightarrow> f64 \<Rightarrow> f64 \<Rightarrow> page \<Rightarrow> py_error + (f64 \<times> page)" where
  "calculate_usd_for_target_inr_f64 target_inr paypal_fee_percent paypal_fixed_fee_usd
       tax_percent usd_to_inr_rate pg =
     (case py_truediv_f64 paypal_fee_percent (Num 100) of
        Inl e \<Rightarrow> Inl e
      | Inr p \<Rightarrow>
          (case py_truediv_f64 tax_percent (Num 100) of
             Inl e \<Rightarrow> Inl e
           | Inr t \<Rightarrow>
               let R = usd_to_inr_rate;
                   f = paypal_fixed_fee_usd;
                   denominator = f64_mul R (f64_sub (Num 1) t)
               in if f64_eq denominator (Num 0) \<or> f64_eq (f64_sub (Num 1) p) (Num 0)
                  then Inr (Num 0, st_error invalid_parameters_msg pg)
                  else (case py_truediv_f64 target_inr denominator of
                          Inl e \<Rightarrow> Inl e
                        | Inr target_usd \<Rightarrow>
                            (case py_truediv_f64 (f64_add target_usd f) (f64_sub (Num 1) p) of
                               Inl e \<Rightarrow> Inl e
                             | Inr required_usd \<Rightarrow> Inr (required_usd, pg)))))"

subsection \<open>Relative error\<close>

text \<open>\<open>near e k\<close>: the factor \<open>k\<close> is within \<open>e\<close> of \<open>1\<close>.\<close>

definition near :: "real \<Rightarrow> real \<Rightarrow> bool" where
  "near e k = (\<bar>k - 1\<bar> \<le> e)"

section \<open>Properties\<close>

subsection \<open>Helper facts\<close>

text \<open>The divisions by the literal \<open>100\<close> never raise; a division by a nonzero value never raises.\<close>

lemma py_truediv_100: "py_truediv x 100 = Inr (x / 100)"
  by (simp add: py_truediv_def)

lemma py_truediv_nonzero: "b \<noteq> 0 \<Longrightarrow> py_truediv a b = Inr (a / b)"
  by (simp add: py_truediv_def)

lemma calculate_inr_from_usd_Inr:
  "calculate_inr_from_usd a p f t R = Inr ((a * (1 - p / 100) - f) * (1 - t / 100) * R)"
  by (simp add: calculate_inr_from_usd_def py_truediv_100)

text \<open>The two branches of \<open>calculate_usd_for_target_inr\<close>.\<close>

lemma calculate_usd_for_target_inr_success:
  "R * (1 - t / 100) \<noteq> 0 \<Longrightarrow> 1 - p / 100 \<noteq> 0 \<Longrightarrow>
   calculate_usd_for_target_inr T p f t R pg =
     Inr ((T / (R * (1 - t / 100)) + f) / (1 - p / 100), pg)"
  by (simp add: calculate_usd_for_target_inr_def py_truediv_100 py_truediv_nonzero Let_def)

lemma calculate_usd_for_target_inr_guard:
  "R * (1 - t / 100) = 0 \<or> 1 - p / 100 = 0 \<Longrightarrow>
   calculate_usd_for_target_inr T p f t R pg = Inr (0, pg @ [StError invalid_parameters_msg])"
  by (simp add: calculate_usd_for_target_inr_def py_truediv_100 Let_def st_error_def)

subsection \<open>The forward formula\<close>

text \<open>
  C2. For every input, \<open>calculate_inr_from_usd\<close> returns exactly
  \<open>((amountUSD * (1 - feePercent/100)) - fixedFee) * (1 - taxPercent/100) * exchangeRate\<close>.
\<close>

theorem calculate_inr_from_usd_formula:
  "calculate_inr_from_usd amountUSD feePercent fixedFee taxPercent exchangeRate =
     Inr (((amountUSD * (1 - feePercent / 100)) - fixedFee) * (1 - taxPercent / 100)
            * exchangeRate)"
  by (simp add: calculate_inr_from_usd_def py_truediv_100)

text \<open>
  C8. The concrete forward case: \<open>calculate_inr_from_usd(100, 4.4, 0.30, 0.0, 82.0)\<close> is
  \<open>(100 * (1 - 0.044) - 0.30) * 1.0 * 82.0 = 95.3 * 82.0 = 7814.6\<close>, exactly, over exact
  arithmetic.
\<close>

theorem calculate_inr_from_usd_concrete:
  "calculate_inr_from_usd 100 4.4 0.30 0.0 82.0 = Inr 7814.6 \<and>
   (100 * (1 - 0.044) - 0.30) * 1.0 * 82.0 = (95.3 * 82.0 :: real) \<and>
   (95.3 * 82.0 :: real) = 7814.6"
  by (simp add: calculate_inr_from_usd_def py_truediv_def)

text \<open>
  C7. \<open>calculate_inr_from_usd\<close> is total: on every input it returns a number and raises
  nothing. It does not clamp to zero: when the fees exceed the amount the result is
  strictly negative, as for 0.10 USD under the default fees (4.4 percent, 0.30 USD fixed,
  no tax, rate 82), where it returns -16.7608. The function has no effect on the page: it
  makes no \<^verbatim>\<open>st\<close> call, and its embedding neither takes nor returns one.
\<close>

theorem calculate_inr_from_usd_total_unclamped:
  "(\<exists>r. calculate_inr_from_usd amountUSD feePercent fixedFee taxPercent exchangeRate = Inr r) \<and>
   (\<exists>r. calculate_inr_from_usd 0.10 4.4 0.30 0 82 = Inr r \<and> r < 0)"
proof
  show "\<exists>r. calculate_inr_from_usd amountUSD feePercent fixedFee taxPercent exchangeRate = Inr r"
    by (simp add: calculate_inr_from_usd_Inr)
next
  have "calculate_inr_from_usd 0.10 4.4 0.30 0 82 = Inr (- 16.7608)"
    by (simp add: calculate_inr_from_usd_def py_truediv_def)
  then show "\<exists>r. calculate_inr_from_usd 0.10 4.4 0.30 0 82 = Inr r \<and> r < 0"
    by simp
qed

subsection \<open>The inverse formula\<close>

text \<open>
  C3. For every input with \<open>denominator = exchangeRate * (1 - taxPercent/100)\<close> nonzero and
  \<open>1 - feePercent/100\<close> nonzero, \<open>calculate_usd_for_target_inr\<close> returns exactly
  \<open>((targetINR / denominator) + fixedFee) / (1 - feePercent/100)\<close> (and leaves the page as
  it was).
\<close>

theorem calculate_usd_for_target_inr_formula:
  assumes "exchangeRate * (1 - taxPercent / 100) \<noteq> 0"
    and "1 - feePercent / 100 \<noteq> 0"
  shows "calculate_usd_for_target_inr targetINR feePercent fixedFee taxPercent exchangeRate pg =
           Inr (((targetINR / (exchangeRate * (1 - taxPercent / 100))) + fixedFee)
                  / (1 - feePercent / 100), pg)"
  using assms by (rule calculate_usd_for_target_inr_success)

theorem calculate_usd_for_target_inr_formula_witness:
  "(82::real) * (1 - 0 / 100) \<noteq> 0 \<and> 1 - (4.4::real) / 100 \<noteq> 0 \<and>
   calculate_usd_for_target_inr 10000 4.4 0.30 0 82 [] =
     Inr (((10000 / (82 * (1 - 0 / 100))) + 0.30) / (1 - 4.4 / 100), [])"
  using calculate_usd_for_target_inr_formula
    [where exchangeRate = 82 and taxPercent = 0 and feePercent = "4.4"
       and targetINR = 10000 and fixedFee = "0.30" and pg = "[]"]
  by simp

text \<open>
  C10. \<open>calculate_usd_for_target_inr\<close> never divides by zero. The guard
  \<open>denominator == 0 or (1 - p) == 0\<close> is checked before the two divisions, so each of them
  has a nonzero divisor; no \<^verbatim>\<open>ZeroDivisionError\<close> is raised and the function returns a
  number on every input.
\<close>

theorem calculate_usd_for_target_inr_total:
  "\<exists>requiredUSD pg'.
     calculate_usd_for_target_inr targetINR feePercent fixedFee taxPercent exchangeRate pg =
       Inr (requiredUSD, pg')"
proof (cases "exchangeRate * (1 - taxPercent / 100) = 0 \<or> 1 - feePercent / 100 = 0")
  case True
  then show ?thesis
    by (simp add: calculate_usd_for_target_inr_guard)
next
  case False
  then show ?thesis
    by (simp add: calculate_usd_for_target_inr_success)
qed

subsection \<open>Degenerate parameters\<close>

text \<open>
  C4. The degenerate fallback: on every input where
  \<open>exchangeRate * (1 - taxPercent/100) = 0\<close> or \<open>1 - feePercent/100 = 0\<close>,
  \<open>calculate_usd_for_target_inr\<close> signals the invalid parameters (it puts the error
  message on the page) and returns the fallback value 0.0, whatever \<open>targetINR\<close> and the
  other parameters are; it raises nothing.
\<close>

theorem calculate_usd_for_target_inr_degenerate:
  assumes "exchangeRate * (1 - taxPercent / 100) = 0 \<or> 1 - feePercent / 100 = 0"
  shows "calculate_usd_for_target_inr targetINR feePercent fixedFee taxPercent exchangeRate pg =
           Inr (0, pg @ [StError ''Invalid parameters. Please check your rates/fees.''])"
  using assms by (simp add: calculate_usd_for_target_inr_guard invalid_parameters_msg_def)

theorem calculate_usd_for_target_inr_degenerate_witness:
  "((82::real) * (1 - 0 / 100) = 0 \<or> 1 - (100::real) / 100 = 0) \<and>
   calculate_usd_for_target_inr 5000 100 0.30 0 82 [] =
     Inr (0, [StError ''Invalid parameters. Please check your rates/fees.''])"
  using calculate_usd_for_target_inr_degenerate
    [where exchangeRate = 82 and taxPercent = 0 and feePercent = 100
       and targetINR = 5000 and fixedFee = "0.30" and pg = "[]"]
  by simp

text \<open>The three particular cases: a fee of 100 percent, a rate of 0, a tax of 100 percent.\<close>

lemma degenerate_fee_100:
  "calculate_usd_for_target_inr T 100 f t R pg = Inr (0, pg @ [StError invalid_parameters_msg])"
  by (simp add: calculate_usd_for_target_inr_guard)

lemma degenerate_rate_0:
  "calculate_usd_for_target_inr T p f t 0 pg = Inr (0, pg @ [StError invalid_parameters_msg])"
  by (simp add: calculate_usd_for_target_inr_guard)

lemma degenerate_tax_100:
  "calculate_usd_for_target_inr T p f 100 R pg = Inr (0, pg @ [StError invalid_parameters_msg])"
  by (simp add: calculate_usd_for_target_inr_guard)

text \<open>
  C9. The sentinel is ambiguous: there is an input with
  \<open>exchangeRate * (1 - taxPercent/100) \<noteq> 0\<close> and \<open>1 - feePercent/100 \<noteq> 0\<close> (a target of 0 INR
  with no fixed fee) on which \<open>calculate_usd_for_target_inr\<close> returns exactly 0.0, the
  number that the degenerate fallback returns (as with the fee set to 100 percent). The
  returned number alone does not tell the error from the answer zero.
\<close>

theorem calculate_usd_for_target_inr_sentinel_ambiguous:
  "\<exists>targetINR feePercent fixedFee taxPercent exchangeRate.
     exchangeRate * (1 - taxPercent / 100) \<noteq> 0 \<and> 1 - feePercent / 100 \<noteq> 0 \<and>
     map_sum id fst
       (calculate_usd_for_target_inr targetINR feePercent fixedFee taxPercent exchangeRate pg)
       = Inr 0 \<and>
     map_sum id fst
       (calculate_usd_for_target_inr targetINR 100 fixedFee taxPercent exchangeRate pg)
       = Inr 0"
proof -
  have "(82::real) * (1 - 0 / 100) \<noteq> 0" and "1 - (4.4::real) / 100 \<noteq> 0"
    by simp_all
  moreover have "map_sum id fst (calculate_usd_for_target_inr 0 4.4 0 0 82 pg) = Inr 0"
    by (simp add: calculate_usd_for_target_inr_success)
  moreover have "map_sum id fst (calculate_usd_for_target_inr 0 100 0 0 82 pg) = Inr 0"
    by (simp add: calculate_usd_for_target_inr_guard)
  ultimately show ?thesis
    by blast
qed

text \<open>
  C5, as the specification states it: the result of the inverse operation carries, next
  to the number, a boolean flag that tells a degenerate call from an answer that is zero.
  The source returns the number alone. The call with a fee of 100 percent (degenerate) and
  the call for a target of 0 INR with no fixed fee (not degenerate) return the same value.
\<close>

theorem return_value_flag_counterexample:
  "map_sum id fst (calculate_usd_for_target_inr 5000 100 0.30 0 82 []) =
   map_sum id fst (calculate_usd_for_target_inr 0 4.4 0 0 82 []) \<and>
   1 - (100::real) / 100 = 0 \<and>
   (82::real) * (1 - 0 / 100) \<noteq> 0 \<and> 1 - (4.4::real) / 100 \<noteq> 0"
  by (simp add: calculate_usd_for_target_inr_def py_truediv_def st_error_def)

text \<open>
  C5, amended: \<open>calculate_usd_for_target_inr\<close> returns the number alone. That a call is
  degenerate shows on the page only: the call appends the error message when
  \<open>exchangeRate * (1 - taxPercent/100) = 0\<close> or \<open>1 - feePercent/100 = 0\<close>, and leaves the
  page as it was otherwise.
\<close>

theorem degenerate_shown_on_page_only:
  "\<exists>requiredUSD.
     calculate_usd_for_target_inr targetINR feePercent fixedFee taxPercent exchangeRate pg =
       Inr (requiredUSD,
            if exchangeRate * (1 - taxPercent / 100) = 0 \<or> 1 - feePercent / 100 = 0
            then pg @ [StError ''Invalid parameters. Please check your rates/fees.'']
            else pg)"
proof (cases "exchangeRate * (1 - taxPercent / 100) = 0 \<or> 1 - feePercent / 100 = 0")
  case True
  then show ?thesis
    by (simp add: calculate_usd_for_target_inr_guard invalid_parameters_msg_def)
next
  case False
  then show ?thesis
    by (simp add: calculate_usd_for_target_inr_success)
qed

section \<open>Properties of the rounding\<close>

subsection \<open>The binary logarithm\<close>

lemma ilog2_lower: assumes "0 < x" shows "2 powi ilog2 x \<le> x"
proof (cases "1 \<le> x")
  case True
  define n where "n = \<lfloor>x\<rfloor>"
  have n: "0 < n" using True by (simp add: n_def)
  from bitlen_bounds [OF n] have "2 ^ nat (bitlen n - 1) \<le> n" by simp
  then have "(2::real) ^ nat (bitlen n - 1) \<le> of_int n"
    by (metis of_int_le_iff of_int_numeral of_int_power)
  also have "\<dots> \<le> x" by (simp add: n_def)
  finally have "(2::real) ^ nat (bitlen n - 1) \<le> x" .
  moreover have "1 \<le> bitlen n" using n by (simp add: bitlen_alt_def)
  ultimately show ?thesis
    using True by (simp add: ilog2_def n_def power_int_def)
next
  case False
  define m where "m = \<lceil>1 / x\<rceil> - 1"
  have y: "1 < 1 / x" using False assms by simp
  then have m: "0 < m" by (simp add: m_def less_ceiling_iff)
  from bitlen_bounds [OF m] have "m < 2 ^ nat (bitlen m)" by simp
  then have "m + 1 \<le> 2 ^ nat (bitlen m)" by simp
  then have "of_int (m + 1) \<le> (2::real) ^ nat (bitlen m)"
    by (metis of_int_le_iff of_int_numeral of_int_power)
  moreover have "1 / x \<le> of_int (m + 1)" by (simp add: m_def)
  ultimately have "1 / x \<le> 2 ^ nat (bitlen m)" by linarith
  then have "1 / 2 ^ nat (bitlen m) \<le> x"
    using assms by (simp add: field_simps)
  moreover have "0 \<le> bitlen m" by (rule bitlen_nonneg)
  moreover have "1 \<le> bitlen m" using m by (simp add: bitlen_alt_def)
  ultimately show ?thesis
    using False by (simp add: ilog2_def m_def power_int_def field_simps)
qed

lemma ilog2_upper: assumes "0 < x" shows "x < 2 powi (ilog2 x + 1)"
proof (cases "1 \<le> x")
  case True
  define n where "n = \<lfloor>x\<rfloor>"
  have n: "0 < n" using True by (simp add: n_def)
  from bitlen_bounds [OF n] have "n + 1 \<le> 2 ^ nat (bitlen n)" by simp
  then have "of_int (n + 1) \<le> (2::real) ^ nat (bitlen n)"
    by (metis of_int_le_iff of_int_numeral of_int_power)
  moreover have "x < of_int (n + 1)" by (simp add: n_def)
  ultimately have "x < 2 ^ nat (bitlen n)" by linarith
  moreover have "0 \<le> bitlen n" by (rule bitlen_nonneg)
  ultimately show ?thesis
    using True by (simp add: ilog2_def n_def power_int_def)
next
  case False
  define m where "m = \<lceil>1 / x\<rceil> - 1"
  have y: "1 < 1 / x" using False assms by simp
  then have m: "0 < m" by (simp add: m_def less_ceiling_iff)
  have k: "1 \<le> bitlen m" using m by (simp add: bitlen_alt_def)
  from bitlen_bounds [OF m] have "2 ^ nat (bitlen m - 1) \<le> m" by simp
  then have "(2::real) ^ nat (bitlen m - 1) \<le> of_int m"
    by (metis of_int_le_iff of_int_numeral of_int_power)
  moreover have "of_int m < 1 / x" unfolding m_def by linarith
  ultimately have "2 ^ nat (bitlen m - 1) < 1 / x" by linarith
  then have lt: "x < 1 / 2 ^ nat (bitlen m - 1)"
    using assms by (simp add: field_simps)
  show ?thesis
  proof (cases "bitlen m = 1")
    case True
    with lt show ?thesis using False by (simp add: ilog2_def m_def)
  next
    case F: False
    with k have "1 - bitlen m < 0" by simp
    moreover have "nat (- (1 - bitlen m)) = nat (bitlen m - 1)" by simp
    ultimately show ?thesis
      using lt False by (simp add: ilog2_def m_def power_int_def field_simps)
  qed
qed

lemma ilog2_mono: assumes "0 < x" "x \<le> y" shows "ilog2 x \<le> ilog2 y"
proof (rule ccontr)
  assume "\<not> ilog2 x \<le> ilog2 y"
  then have "ilog2 y + 1 \<le> ilog2 x" by simp
  then have "(2::real) powi (ilog2 y + 1) \<le> 2 powi ilog2 x"
    by (intro power_int_increasing) simp_all
  also have "\<dots> \<le> x" using assms(1) by (rule ilog2_lower)
  also have "\<dots> \<le> y" by fact
  also have "\<dots> < 2 powi (ilog2 y + 1)" using assms by (intro ilog2_upper) simp
  finally show False by simp
qed

subsection \<open>Rounding to an integer\<close>

lemma rne_cases: "rne x = \<lfloor>x\<rfloor> \<or> rne x = \<lfloor>x\<rfloor> + 1"
  by (simp add: rne_def Let_def)

lemma rne_mono: assumes "x \<le> y" shows "rne x \<le> rne y"
proof (cases "\<lfloor>x\<rfloor> = \<lfloor>y\<rfloor>")
  case True
  define n where "n = \<lfloor>x\<rfloor>"
  define dx where "dx = x - of_int n"
  define dy where "dy = y - of_int n"
  have d: "dx \<le> dy" using assms by (simp add: dx_def dy_def)
  have rx: "rne x = (if dx < 1 / 2 then n else if 1 / 2 < dx then n + 1
                     else if even n then n else n + 1)"
    by (simp add: rne_def Let_def n_def dx_def)
  have ry: "rne y = (if dy < 1 / 2 then n else if 1 / 2 < dy then n + 1
                     else if even n then n else n + 1)"
    using True by (simp add: rne_def Let_def n_def dy_def)
  show ?thesis
    unfolding rx ry using d by (simp split: if_splits)
next
  case False
  moreover have "\<lfloor>x\<rfloor> \<le> \<lfloor>y\<rfloor>" using assms by (rule floor_mono)
  ultimately have "\<lfloor>x\<rfloor> + 1 \<le> \<lfloor>y\<rfloor>" by simp
  then show ?thesis using rne_cases [of x] rne_cases [of y] by linarith
qed

lemma rne_of_int: "rne (of_int k) = k"
  by (simp add: rne_def)

lemma rne_minus: "rne (- x) = - rne x"
proof (cases "x = of_int \<lfloor>x\<rfloor>")
  case True
  then obtain k where "x = of_int k" ..
  then show ?thesis by (simp add: rne_of_int flip: of_int_minus)
next
  case False
  define n where "n = \<lfloor>x\<rfloor>"
  define d where "d = x - of_int n"
  have f: "\<lfloor>- x\<rfloor> = - n - 1"
    using False by (simp add: floor_minus ceiling_altdef n_def)
  have d': "- x - of_int (- n - 1) = 1 - d"
    by (simp add: d_def)
  have rx: "rne x = (if d < 1 / 2 then n else if 1 / 2 < d then n + 1
                     else if even n then n else n + 1)"
    by (simp add: rne_def Let_def n_def d_def)
  have rm: "rne (- x) = (if 1 - d < 1 / 2 then - n - 1 else if 1 / 2 < 1 - d then - n
                     else if even (- n - 1) then - n - 1 else - n)"
    by (simp only: rne_def Let_def f d') simp
  show ?thesis
    unfolding rx rm by (simp split: if_splits)
qed

lemma rne_err: "\<bar>real_of_int (rne z) - z\<bar> \<le> 1 / 2"
proof -
  define n where "n = \<lfloor>z\<rfloor>"
  have b: "of_int n \<le> z" "z < of_int n + 1" unfolding n_def by linarith+
  have r: "rne z = (if z - of_int n < 1 / 2 then n else if 1 / 2 < z - of_int n then n + 1
                     else if even n then n else n + 1)"
    by (simp add: rne_def Let_def n_def)
  show ?thesis
    unfolding r using b by (auto split: if_splits)
qed

subsection \<open>Rounding is monotone\<close>

lemma ulp_exp_minus: "ulp_exp (- x) = ulp_exp x"
  by (simp add: ulp_exp_def)

lemma quantize_minus: "quantize (- x) = - quantize x"
  by (simp add: quantize_def ulp_exp_minus rne_minus)

lemma rne_nonneg: "0 \<le> x \<Longrightarrow> 0 \<le> rne x"
  using rne_mono [of 0 x] rne_of_int [of 0] by simp

lemma quantize_nonneg: "0 \<le> x \<Longrightarrow> 0 \<le> quantize x"
  by (simp add: quantize_def rne_nonneg)

lemma ulp_exp_mono: "0 < x \<Longrightarrow> x \<le> y \<Longrightarrow> ulp_exp x \<le> ulp_exp y"
  using ilog2_mono [of x y] by (simp add: ulp_exp_def)

lemma quantize_le_pow:
  assumes "0 < x" shows "quantize x \<le> 2 powi (ulp_exp x + 53)"
proof -
  let ?e = "ulp_exp x"
  have "x < 2 powi (ilog2 x + 1)" using assms by (rule ilog2_upper)
  also have "\<dots> \<le> 2 powi (?e + 53)"
    using assms by (intro power_int_increasing) (simp_all add: ulp_exp_def)
  finally have "x / 2 powi ?e \<le> 2 powi (?e + 53) / 2 powi ?e"
    by (simp add: divide_right_mono)
  also have "\<dots> = of_int (2 ^ 53)"
    by (simp add: power_int_add)
  finally have "rne (x / 2 powi ?e) \<le> rne (of_int (2 ^ 53))"
    by (rule rne_mono)
  then have "rne (x / 2 powi ?e) \<le> 2 ^ 53"
    by (simp only: rne_of_int)
  then have "real_of_int (rne (x / 2 powi ?e)) \<le> 2 ^ 53"
    by (metis of_int_le_iff of_int_numeral of_int_power)
  then have "real_of_int (rne (x / 2 powi ?e)) * 2 powi ?e \<le> 2 ^ 53 * 2 powi ?e"
    by (simp add: mult_right_mono)
  also have "\<dots> = 2 powi (?e + 53)"
    by (simp add: power_int_add)
  finally show ?thesis
    using assms by (simp add: quantize_def)
qed

lemma quantize_ge_pow:
  assumes "0 < y" and "- 1022 < ilog2 y" shows "2 powi (ulp_exp y + 52) \<le> quantize y"
proof -
  let ?e = "ulp_exp y"
  have e: "?e + 52 = ilog2 y" using assms by (simp add: ulp_exp_def)
  have "real_of_int (2 ^ 52) = 2 powi (?e + 52) / 2 powi ?e"
    by (simp add: power_int_add)
  also have "\<dots> \<le> y / 2 powi ?e"
    unfolding e using assms(1) by (intro divide_right_mono ilog2_lower) simp_all
  finally have "rne (of_int (2 ^ 52)) \<le> rne (y / 2 powi ?e)"
    by (rule rne_mono)
  then have "2 ^ 52 \<le> rne (y / 2 powi ?e)"
    by (simp only: rne_of_int)
  then have r: "2 ^ 52 \<le> real_of_int (rne (y / 2 powi ?e))"
    by (metis of_int_le_iff of_int_numeral of_int_power)
  have "(2::real) powi (?e + 52) = 2 ^ 52 * 2 powi ?e"
    by (simp add: power_int_add)
  also have "\<dots> \<le> real_of_int (rne (y / 2 powi ?e)) * 2 powi ?e"
    using r by (intro mult_right_mono) simp_all
  also have "\<dots> = quantize y"
    using assms by (simp add: quantize_def)
  finally show ?thesis .
qed

lemma quantize_mono_pos:
  assumes "0 < x" and "x \<le> y" shows "quantize x \<le> quantize y"
proof (cases "ulp_exp x = ulp_exp y")
  case True
  let ?e = "ulp_exp y"
  have "x / 2 powi ?e \<le> y / 2 powi ?e"
    using assms by (simp add: divide_right_mono)
  then have "rne (x / 2 powi ?e) \<le> rne (y / 2 powi ?e)"
    by (rule rne_mono)
  then have "real_of_int (rne (x / 2 powi ?e)) * 2 powi ?e
           \<le> real_of_int (rne (y / 2 powi ?e)) * 2 powi ?e"
    by (simp add: mult_right_mono)
  then show ?thesis
    using assms True by (simp add: quantize_def)
next
  case False
  with ulp_exp_mono [OF assms] have lt: "ulp_exp x < ulp_exp y" by simp
  from lt assms have "- 1022 < ilog2 y" by (simp add: ulp_exp_def max_def split: if_splits)
  have "quantize x \<le> 2 powi (ulp_exp x + 53)"
    using assms(1) by (rule quantize_le_pow)
  also have "\<dots> \<le> 2 powi (ulp_exp y + 52)"
    using lt by (intro power_int_increasing) simp_all
  also have "\<dots> \<le> quantize y"
    using assms \<open>- 1022 < ilog2 y\<close> by (intro quantize_ge_pow) simp_all
  finally show ?thesis .
qed

lemma quantize_mono: assumes "x \<le> y" shows "quantize x \<le> quantize y"
proof -
  consider "0 < x" | "x \<le> 0" "0 \<le> y" | "y < 0" by linarith
  then show ?thesis
  proof cases
    case 1
    then show ?thesis using assms by (rule quantize_mono_pos)
  next
    case 2
    have "quantize x \<le> 0"
      using quantize_nonneg [of "- x"] 2(1) by (simp add: quantize_minus)
    also have "0 \<le> quantize y" using 2(2) by (rule quantize_nonneg)
    finally show ?thesis .
  next
    case 3
    then have "quantize (- y) \<le> quantize (- x)"
      using assms by (intro quantize_mono_pos) simp_all
    then show ?thesis by (simp add: quantize_minus)
  qed
qed

lemma round64_not_NaN: "round64 x \<noteq> NaN"
  by (simp add: round64_def Let_def)

lemma round64_mono: "x \<le> y \<Longrightarrow> f64_le (round64 x) (round64 y)"
  using quantize_mono [of x y]
  by (auto simp: round64_def Let_def f64_le_def)

lemma round64_0: "round64 0 = Num 0"
  by (simp add: round64_def quantize_def)

subsection \<open>Order on binary64\<close>

lemma f64_le_Num [simp]: "f64_le (Num x) (Num y) = (x \<le> y)"
  by (auto simp: f64_le_def)

lemma f64_le_simps [simp]:
  "f64_le NInf (Num y)" "f64_le NInf PInf" "f64_le NInf NInf"
  "f64_le (Num x) PInf" "f64_le PInf PInf"
  "\<not> f64_le PInf (Num y)" "\<not> f64_le PInf NInf" "\<not> f64_le (Num x) NInf"
  "\<not> f64_le NaN b" "\<not> f64_le a NaN"
  by (cases a; cases b; simp add: f64_le_def)+

lemma f64_le_round64_PInf [simp]: "f64_le (round64 x) PInf"
  by (simp add: round64_def Let_def)

lemma f64_le_NInf_round64 [simp]: "f64_le NInf (round64 x)"
  by (simp add: round64_def Let_def)

lemma ilog2_pow2: "ilog2 (2 ^ k) = int k"
proof -
  have "\<lfloor>(2::real) ^ k\<rfloor> = 2 ^ k"
    by (metis floor_of_int of_int_numeral of_int_power)
  moreover have "bitlen (2 ^ k) = int k + 1"
    using bitlen_pow2 [of 1 k] by (simp add: bitlen_alt_def)
  ultimately show ?thesis
    by (simp add: ilog2_def)
qed

lemma quantize_pow2: "quantize (2 ^ k) = 2 ^ k"
proof -
  have e: "ulp_exp (2 ^ k) = int k - 52"
    by (simp add: ulp_exp_def ilog2_pow2)
  have "(2::real) ^ k / 2 powi (int k - 52) = of_int (2 ^ 52)"
    by (simp add: power_int_diff)
  then have "rne (2 ^ k / 2 powi (int k - 52)) = 2 ^ 52"
    by (simp only: rne_of_int)
  then have "quantize (2 ^ k) = of_int (2 ^ 52) * 2 powi (int k - 52)"
    by (simp add: quantize_def e)
  also have "\<dots> = 2 ^ k"
    by (simp add: power_int_diff)
  finally show ?thesis .
qed

lemma round64_bounded:
  assumes "\<bar>x\<bar> \<le> 2 ^ k" and "k \<le> 1023"
  shows "\<exists>v. round64 x = Num v \<and> \<bar>v\<bar> \<le> 2 ^ k"
proof -
  have "quantize x \<le> quantize (2 ^ k)"
    using assms(1) by (intro quantize_mono) simp
  then have u: "quantize x \<le> 2 ^ k" by (simp only: quantize_pow2)
  have "quantize (- (2 ^ k)) \<le> quantize x"
    using assms(1) by (intro quantize_mono) simp
  then have l: "- (2 ^ k) \<le> quantize x" by (simp only: quantize_minus quantize_pow2)
  have "(2::real) ^ k < 2 ^ 1024"
    using assms(2) by (intro power_strict_increasing) simp_all
  with u l have "\<not> 2 ^ 1024 \<le> quantize x" and "\<not> quantize x \<le> - (2 ^ 1024)"
    by linarith+
  then have "round64 x = Num (quantize x)"
    by (simp only: round64_def Let_def if_False)
  with u l show ?thesis
    by (simp add: abs_le_iff)
qed

lemma is_binary64_bound: assumes "is_binary64 x" shows "\<bar>x\<bar> < 2 ^ 1024"
proof -
  from assms have "round64 x = Num x" by (simp add: is_binary64_def)
  then show ?thesis
    by (auto simp: round64_def Let_def split: if_splits)
qed

lemma percent_fraction_finite:
  assumes "is_binary64 x"
  shows "\<exists>v c. f64_div (Num x) (Num 100) = Num v \<and> f64_sub (Num 1) (Num v) = Num c"
proof -
  have "\<bar>x\<bar> < 2 ^ 1024" using assms by (rule is_binary64_bound)
  then have "\<bar>x / 100\<bar> \<le> 2 ^ 1022" by simp
  then obtain v where v: "round64 (x / 100) = Num v" "\<bar>v\<bar> \<le> 2 ^ 1022"
    using round64_bounded [of "x / 100" 1022] by auto
  have "(1::real) \<le> 2 ^ 1022" by simp
  with v(2) have "\<bar>1 - v\<bar> \<le> 2 ^ 1022 + 2 ^ 1022" by linarith
  then have "\<bar>1 - v\<bar> \<le> 2 ^ 1023" by simp
  then obtain c where "round64 (1 - v) = Num c"
    using round64_bounded [of "1 - v" 1023] by auto
  with v(1) show ?thesis by simp
qed

lemma round64_pos_imp: assumes "f64_lt (Num 0) (round64 z)" shows "0 < z"
proof (rule ccontr)
  assume "\<not> 0 < z"
  then have "f64_le (round64 z) (round64 0)"
    by (intro round64_mono) simp
  then have "f64_le (round64 z) (Num 0)"
    by (simp only: round64_0)
  with assms show False
    by (cases "round64 z") simp_all
qed

lemma f64_sub_mono:
  "f64_le x y \<Longrightarrow> f64_le (f64_sub x (Num f)) (f64_sub y (Num f))"
  by (cases x; cases y) (simp_all add: round64_mono)

lemma f64_mul_mono_pos:
  "0 < c \<Longrightarrow> f64_le x y \<Longrightarrow> f64_le (f64_mul x (Num c)) (f64_mul y (Num c))"
  by (cases x; cases y) (simp_all add: round64_mono)

lemma f64_mul_mono_neg:
  "c < 0 \<Longrightarrow> f64_le x y \<Longrightarrow> f64_le (f64_mul y (Num c)) (f64_mul x (Num c))"
  by (cases x; cases y) (simp_all add: round64_mono)

subsection \<open>Rounding has a small relative error\<close>

lemma ilog2_ge:
  assumes "2 powi k \<le> x" shows "k \<le> ilog2 x"
proof (rule ccontr)
  assume "\<not> k \<le> ilog2 x"
  then have "ilog2 x + 1 \<le> k" by simp
  then have "(2::real) powi (ilog2 x + 1) \<le> 2 powi k"
    by (intro power_int_increasing) simp_all
  moreover have "0 < x"
    using assms by (rule less_le_trans [rotated]) simp
  then have "x < 2 powi (ilog2 x + 1)" by (rule ilog2_upper)
  ultimately show False using assms by linarith
qed

lemma quantize_err:
  assumes "2 powi (- 1022) \<le> x"
  shows "\<bar>quantize x - x\<bar> \<le> x / 2 ^ 53"
proof -
  have pos: "0 < x"
    using assms by (rule less_le_trans [rotated]) simp
  have "- 1022 \<le> ilog2 x" using assms by (rule ilog2_ge)
  then have e: "ulp_exp x = ilog2 x - 52"
    using pos by (simp add: ulp_exp_def)
  let ?e = "ulp_exp x"
  let ?z = "x / 2 powi ?e"
  have "quantize x - x = (real_of_int (rne ?z) - ?z) * 2 powi ?e"
    using pos by (simp add: quantize_def algebra_simps)
  then have "\<bar>quantize x - x\<bar> = \<bar>real_of_int (rne ?z) - ?z\<bar> * 2 powi ?e"
    by (simp add: abs_mult)
  also have "\<dots> \<le> 1 / 2 * 2 powi ?e"
    by (intro mult_right_mono rne_err) simp
  also have "\<dots> = 2 powi ilog2 x / 2 ^ 53"
    by (simp add: e power_int_diff)
  also have "\<dots> \<le> x / 2 ^ 53"
    using pos by (intro divide_right_mono ilog2_lower) simp_all
  finally show ?thesis .
qed

lemma round64_quantize:
  assumes "\<bar>x\<bar> \<le> 2 ^ 1023" shows "round64 x = Num (quantize x)"
proof -
  have "quantize x \<le> quantize (2 ^ 1023)"
    using assms by (intro quantize_mono) simp
  then have u: "quantize x \<le> 2 ^ 1023" by (simp only: quantize_pow2)
  have "quantize (- (2 ^ 1023)) \<le> quantize x"
    using assms by (intro quantize_mono) simp
  then have l: "- (2 ^ 1023) \<le> quantize x" by (simp only: quantize_minus quantize_pow2)
  have "(2::real) ^ 1023 < 2 ^ 1024"
    by (intro power_strict_increasing) simp_all
  with u l have "\<not> 2 ^ 1024 \<le> quantize x" and "\<not> quantize x \<le> - (2 ^ 1024)"
    by linarith+
  then show ?thesis
    by (simp only: round64_def Let_def if_False)
qed

lemma round64_rel:
  assumes "1 / 2 ^ 100 \<le> x" and "x \<le> 2 ^ 100"
  shows "\<exists>k. round64 x = Num (x * k) \<and> near (1 / 2 ^ 53) k"
proof -
  have pos: "0 < x"
    using assms(1) by (rule less_le_trans [rotated]) simp
  have "(2::real) powi (- 1022) \<le> 1 / 2 ^ 100"
    by (simp add: power_int_minus_divide)
  with assms(1) have "2 powi (- 1022) \<le> x" by linarith
  then have err: "\<bar>quantize x - x\<bar> \<le> x / 2 ^ 53" by (rule quantize_err)
  have "(2::real) ^ 100 \<le> 2 ^ 1023"
    by (intro power_increasing) simp_all
  with assms(2) pos have "\<bar>x\<bar> \<le> 2 ^ 1023" by simp
  then have r: "round64 x = Num (quantize x)" by (rule round64_quantize)
  define k where "k = quantize x / x"
  have q: "quantize x = x * k" using pos by (simp add: k_def)
  have "k - 1 = (quantize x - x) / x"
    using pos by (simp add: k_def field_simps)
  then have "\<bar>k - 1\<bar> = \<bar>quantize x - x\<bar> / x"
    using pos by (simp add: abs_divide)
  also have "\<dots> \<le> (x / 2 ^ 53) / x"
    using pos err by (intro divide_right_mono) simp_all
  also have "\<dots> = 1 / 2 ^ 53"
    using pos by simp
  finally have "\<bar>k - 1\<bar> \<le> 1 / 2 ^ 53" .
  with q r show ?thesis by (auto simp: near_def)
qed

lemma bitlen_numeral_step: "bitlen (numeral n) = bitlen (numeral n div 2) + 1"
  by (subst compute_bitlen) simp

lemma bitlen_one: "bitlen 1 = 1"
  by (subst compute_bitlen) simp

lemmas quantize_eval = quantize_def ulp_exp_def ilog2_def rne_def Let_def
  bitlen_numeral_step bitlen_one

lemma near_mult: assumes "near a x" and "near b y" shows "near (a + b + a * b) (x * y)"
proof -
  have "x * y - 1 = (x - 1) * (y - 1) + (x - 1) + (y - 1)"
    by (simp add: algebra_simps)
  then have "\<bar>x * y - 1\<bar> \<le> \<bar>x - 1\<bar> * \<bar>y - 1\<bar> + \<bar>x - 1\<bar> + \<bar>y - 1\<bar>"
    by (simp add: abs_mult [symmetric])
  moreover have "\<bar>x - 1\<bar> * \<bar>y - 1\<bar> \<le> a * b"
    using assms by (intro mult_mono) (simp_all add: near_def)
  ultimately show ?thesis
    using assms by (simp add: near_def)
qed

lemma near_mono: "near a x \<Longrightarrow> a \<le> b \<Longrightarrow> near b x"
  by (simp add: near_def)

lemma near_bounds: assumes "near a x" and "a \<le> 1 / 2" shows "1 / 2 \<le> x" and "x \<le> 2"
  using assms by (simp_all add: near_def abs_le_iff)

lemma near_inverse: assumes "near a x" and "a \<le> 1 / 2" shows "near (2 * a) (1 / x)"
proof -
  have x: "1 / 2 \<le> x" using assms by (rule near_bounds)
  then have pos: "0 < x" by simp
  have "1 / x - 1 = (1 - x) / x" using pos by (simp add: field_simps)
  then have "\<bar>1 / x - 1\<bar> = \<bar>x - 1\<bar> / x" using pos by (simp add: abs_divide abs_minus_commute)
  also have "\<dots> \<le> a / (1 / 2)"
    using assms(1) x by (intro frac_le) (simp_all add: near_def)
  finally show ?thesis by (simp add: near_def)
qed

lemma scale_range:
  assumes "near (1 / 2 ^ 53) k" and "lo \<le> x" and "x \<le> hi" and "0 \<le> lo"
  shows "lo / 2 \<le> x * k" and "x * k \<le> hi * 2"
proof -
  have k: "1 / 2 \<le> k" "k \<le> 2" using assms(1) by (rule near_bounds; simp)+
  have "lo * (1 / 2) \<le> x * k"
    using assms k by (intro mult_mono) simp_all
  then show "lo / 2 \<le> x * k" by simp
  show "x * k \<le> hi * 2"
    using assms k by (intro mult_mono) simp_all
qed

lemma quantize_consts:
  "quantize 0 = 0" "quantize 1 = 1" "quantize (127 / 128) = 127 / 128"
  "quantize (1 / 128) = 1 / 128"
  by (simp_all add: quantize_eval)

lemma percent_complement_range:
  assumes "0 \<le> x" and "x \<le> 99"
  shows "\<exists>p c. f64_div (Num x) (Num 100) = Num p \<and> f64_sub (Num 1) (Num p) = Num c \<and>
               1 / 128 \<le> c \<and> c \<le> 1"
proof -
  let ?p = "quantize (x / 100)"
  let ?c = "quantize (1 - ?p)"
  have "(1::real) \<le> 2 ^ 1023" by (rule one_le_power) simp
  then have one: "y \<le> 1 \<Longrightarrow> y \<le> 2 ^ 1023" for y :: real by linarith
  have "\<bar>x / 100\<bar> \<le> 2 ^ 1023" using assms by (intro one) simp
  then have p: "round64 (x / 100) = Num ?p" by (rule round64_quantize)
  have "quantize 0 \<le> ?p" using assms by (intro quantize_mono) simp
  then have p0: "0 \<le> ?p" by (simp only: quantize_consts)
  have "?p \<le> quantize (127 / 128)" using assms by (intro quantize_mono) simp
  then have p1: "?p \<le> 127 / 128" by (simp only: quantize_consts)
  have "\<bar>1 - ?p\<bar> \<le> 2 ^ 1023" using p0 p1 by (intro one) simp
  then have c: "round64 (1 - ?p) = Num ?c" by (rule round64_quantize)
  have "quantize (1 / 128) \<le> ?c" using p1 by (intro quantize_mono) simp
  then have c0: "1 / 128 \<le> ?c" by (simp only: quantize_consts)
  have "?c \<le> quantize 1" using p0 by (intro quantize_mono) simp
  then have c1: "?c \<le> 1" by (simp only: quantize_consts)
  show ?thesis using p c c0 c1 by simp
qed

lemma round64_rel_range:
  assumes "lo \<le> x" and "x \<le> hi" and "1 / 2 ^ 100 \<le> lo" and "hi \<le> 2 ^ 100"
  shows "\<exists>k. round64 x = Num (x * k) \<and> near (1 / 2 ^ 53) k \<and> lo / 2 \<le> x * k \<and> x * k \<le> hi * 2"
proof -
  have "1 / 2 ^ 100 \<le> x" and "x \<le> 2 ^ 100" using assms by linarith+
  then obtain k where k: "round64 x = Num (x * k)" "near (1 / 2 ^ 53) k"
    using round64_rel by blast
  have "(0::real) \<le> 1 / 2 ^ 100" by simp
  with assms(3) have "0 \<le> lo" by linarith
  with k(2) assms(1,2) have "lo / 2 \<le> x * k" "x * k \<le> hi * 2"
    by (rule scale_range)+
  with k show ?thesis by blast
qed

lemma near3:
  assumes "near (1 / 2 ^ 53) a" and "near (1 / 2 ^ 53) b" and "near (1 / 2 ^ 53) c"
  shows "near (1 / 2 ^ 51) (a * b * c)"
proof -
  have "near (1 / 2 ^ 53 + 1 / 2 ^ 53 + 1 / 2 ^ 53 * (1 / 2 ^ 53)) (a * b)"
    using assms(1,2) by (rule near_mult)
  then have "near (1 / 2 ^ 52 + 1 / 2 ^ 106) (a * b)"
    by (rule near_mono) simp
  from near_mult [OF this assms(3)] show ?thesis
    by (rule near_mono) simp
qed

lemmas round64_eval = round64_def quantize_eval

subsection \<open>Rounding gives binary64 numbers\<close>

text \<open>
  Rounding a number that is already rounded changes nothing: every finite result of an
  operation is a binary64 number in the sense of \<open>is_binary64\<close>.
\<close>

lemma ilog2_eq:
  assumes "2 powi k \<le> x" and "x < 2 powi (k + 1)" shows "ilog2 x = k"
proof -
  have pos: "0 < x"
    using assms(1) by (rule less_le_trans [rotated]) simp
  have "k \<le> ilog2 x" using assms(1) by (rule ilog2_ge)
  moreover have "ilog2 x \<le> k"
  proof (rule ccontr)
    assume "\<not> ilog2 x \<le> k"
    then have "k + 1 \<le> ilog2 x" by simp
    then have "(2::real) powi (k + 1) \<le> 2 powi ilog2 x"
      by (intro power_int_increasing) simp_all
    also have "\<dots> \<le> x" using pos by (rule ilog2_lower)
    finally show False using assms(2) by simp
  qed
  ultimately show ?thesis by simp
qed

lemma quantize_grid:
  assumes "0 < m" and "m \<le> 2 ^ 53" and "- 1074 \<le> e"
    and "- 1074 < e \<Longrightarrow> 2 ^ 52 \<le> m"
  shows "quantize (of_int m * 2 powi e) = of_int m * 2 powi e"
proof (cases "m = 2 ^ 53")
  case True
  let ?v = "real_of_int m * 2 powi e"
  have v: "?v = 2 powi (e + 53)"
    by (simp add: True power_int_add)
  have "ilog2 ?v = e + 53"
    unfolding v by (rule ilog2_eq) (simp_all add: power_int_add)
  then have u: "ulp_exp ?v = e + 1"
    using assms(3) by (simp add: ulp_exp_def v)
  have "?v / 2 powi (e + 1) = of_int (2 ^ 52)"
    by (simp add: v power_int_add)
  then have "rne (?v / 2 powi (e + 1)) = 2 ^ 52"
    by (simp only: rne_of_int)
  then have "quantize ?v = of_int (2 ^ 52) * 2 powi (e + 1)"
    using u by (simp add: quantize_def v)
  also have "\<dots> = ?v"
    by (simp add: v power_int_add)
  finally show ?thesis .
next
  case False
  let ?v = "real_of_int m * 2 powi e"
  from False assms(2) have "m < 2 ^ 53" by simp
  then have m1: "real_of_int m < 2 ^ 53"
    by (metis of_int_less_iff of_int_numeral of_int_power)
  have vpos: "0 < ?v" using assms(1) by simp
  have hi: "?v < 2 powi (e + 53)"
  proof -
    have "?v < 2 ^ 53 * 2 powi e" using m1 by (intro mult_strict_right_mono) simp_all
    then show ?thesis by (simp add: power_int_add)
  qed
  have u: "ulp_exp ?v = e"
  proof (cases "- 1074 < e")
    case True
    then have "2 ^ 52 \<le> m" by (rule assms(4))
    then have "(2::real) ^ 52 \<le> of_int m"
      by (metis of_int_le_iff of_int_numeral of_int_power)
    then have "2 ^ 52 * 2 powi e \<le> ?v" by (intro mult_right_mono) simp_all
    then have "2 powi (e + 52) \<le> ?v" by (simp add: power_int_add)
    moreover have "?v < 2 powi (e + 52 + 1)" using hi by (simp add: add.commute)
    ultimately have "ilog2 ?v = e + 52" by (rule ilog2_eq)
    then show ?thesis using True vpos by (simp add: ulp_exp_def)
  next
    case F: False
    with assms(3) have e: "e = - 1074" by simp
    have "ilog2 ?v \<le> - 1022"
    proof (rule ccontr)
      assume "\<not> ilog2 ?v \<le> - 1022"
      then have "- 1021 \<le> ilog2 ?v" by simp
      then have "(2::real) powi (- 1021) \<le> 2 powi ilog2 ?v"
        by (intro power_int_increasing) simp_all
      also have "\<dots> \<le> ?v" using vpos by (rule ilog2_lower)
      finally show False using hi by (simp add: e)
    qed
    then show ?thesis using vpos by (simp add: ulp_exp_def e)
  qed
  have "?v / 2 powi e = of_int m" by simp
  then have "rne (?v / 2 powi e) = m" by (simp only: rne_of_int)
  then show ?thesis using vpos u by (simp add: quantize_def)
qed

lemma quantize_idem_pos: assumes "0 < x" shows "quantize (quantize x) = quantize x"
proof -
  let ?e = "ulp_exp x"
  let ?m = "rne (x / 2 powi ?e)"
  have q: "quantize x = of_int ?m * 2 powi ?e" using assms by (simp add: quantize_def)
  show ?thesis
  proof (cases "?m = 0")
    case True
    then show ?thesis by (simp add: q quantize_def)
  next
    case False
    have "0 \<le> ?m" using assms by (intro rne_nonneg) simp
    with False have m0: "0 < ?m" by simp
    have "quantize x \<le> 2 powi (?e + 53)" using assms by (rule quantize_le_pow)
    then have "real_of_int ?m * 2 powi ?e \<le> 2 ^ 53 * 2 powi ?e"
      by (simp add: q power_int_add)
    then have "real_of_int ?m \<le> 2 ^ 53" by simp
    then have m1: "?m \<le> 2 ^ 53"
      by (metis of_int_le_iff of_int_numeral of_int_power)
    have e: "- 1074 \<le> ?e" by (simp add: ulp_exp_def)
    have m2: "2 ^ 52 \<le> ?m" if "- 1074 < ?e"
    proof -
      from that assms have "- 1022 < ilog2 x" by (simp add: ulp_exp_def max_def split: if_splits)
      with assms have "2 powi (?e + 52) \<le> quantize x" by (rule quantize_ge_pow)
      then have "2 ^ 52 * 2 powi ?e \<le> real_of_int ?m * 2 powi ?e"
        by (simp add: q power_int_add)
      then have "2 ^ 52 \<le> real_of_int ?m" by simp
      then show ?thesis
        by (metis of_int_le_iff of_int_numeral of_int_power)
    qed
    show ?thesis unfolding q using m0 m1 e m2 by (rule quantize_grid)
  qed
qed

lemma quantize_idem: "quantize (quantize x) = quantize x"
proof -
  consider "0 < x" | "x = 0" | "x < 0" by linarith
  then show ?thesis
  proof cases
    case 1
    then show ?thesis by (rule quantize_idem_pos)
  next
    case 2
    then show ?thesis by (simp add: quantize_def)
  next
    case 3
    then have "quantize (quantize (- x)) = quantize (- x)" by (intro quantize_idem_pos) simp
    then show ?thesis by (simp add: quantize_minus)
  qed
qed

lemma round64_is_binary64: assumes "round64 x = Num v" shows "is_binary64 v"
proof -
  from assms have v: "v = quantize x" and "\<not> 2 ^ 1024 \<le> quantize x"
      and "\<not> quantize x \<le> - (2 ^ 1024)"
    by (auto simp: round64_def Let_def split: if_splits)
  then show ?thesis
    by (simp add: is_binary64_def round64_def Let_def quantize_idem)
qed

subsection \<open>The embedding on known values\<close>

text \<open>
  The floats nearest to 0.1, 0.3 and 4.4, and the sum \<open>0.1 + 0.2\<close>, which is the float
  printed 0.30000000000000004.
\<close>

lemma round64_known_values:
  "round64 (1 / 10) = Num (3602879701896397 / 2 ^ 55)"
  "round64 (3 / 10) = Num (5404319552844595 / 2 ^ 54)"
  "round64 (44 / 10) = Num (2476979795053773 / 2 ^ 49)"
  "f64_add (round64 (1 / 10)) (round64 (2 / 10)) = Num (1351079888211149 / 2 ^ 52)"
  by (simp_all add: round64_eval)

text \<open>
  At the defaults of the form (100 USD, the floats nearest to 4.4 and to 0.30, no tax,
  rate 82) the forward function on binary64 returns the float printed 7814.599999999999,
  where the exact formula gives 7814.6.
\<close>

lemma calculate_inr_from_usd_f64_defaults:
  "calculate_inr_from_usd_f64 (Num 100) (Num (2476979795053773 / 2 ^ 49))
     (Num (5404319552844595 / 2 ^ 54)) (Num 0) (Num 82) =
   Inr (Num (8592243566418329 / 2 ^ 40))"
  by (simp add: calculate_inr_from_usd_f64_def py_truediv_f64_def round64_eval)

section \<open>Forward and inverse together\<close>

subsection \<open>Over exact arithmetic\<close>

text \<open>
  Over exact arithmetic the two formulas are inverses on the non-degenerate parameters:
  with \<open>1 - feePercent/100 \<noteq> 0\<close> and \<open>exchangeRate * (1 - taxPercent/100) \<noteq> 0\<close>, the
  forward formula applied to the result of the inverse formula gives \<open>targetINR\<close> back.
\<close>

lemma round_trip_exact:
  assumes "1 - feePercent / 100 \<noteq> 0"
    and "exchangeRate * (1 - taxPercent / 100) \<noteq> 0"
  shows "(case calculate_usd_for_target_inr targetINR feePercent fixedFee taxPercent
                 exchangeRate pg of
            Inl e \<Rightarrow> Inl e
          | Inr (requiredUSD, pg') \<Rightarrow>
              calculate_inr_from_usd requiredUSD feePercent fixedFee taxPercent exchangeRate)
         = Inr targetINR"
proof -
  let ?d = "exchangeRate * (1 - taxPercent / 100)"
  let ?c = "1 - feePercent / 100"
  let ?y = "(targetINR / ?d + fixedFee) / ?c"
  have "?y * ?c = targetINR / ?d + fixedFee"
    using assms(1) by simp
  then have "(?y * ?c - fixedFee) * (1 - taxPercent / 100) * exchangeRate = targetINR / ?d * ?d"
    by (simp add: mult.commute mult.left_commute)
  also have "\<dots> = targetINR"
    using assms(2) by simp
  finally show ?thesis
    using assms
    by (simp add: calculate_usd_for_target_inr_success calculate_inr_from_usd_Inr)
qed

subsection \<open>On binary64\<close>

text \<open>
  C1, as the specification states it: for every \<open>targetINR\<close> and all parameters with
  \<open>1 - feePercent/100 \<noteq> 0\<close> and \<open>exchangeRate * (1 - taxPercent/100) \<noteq> 0\<close>,
  \<open>calculate_inr_from_usd\<close> applied to the result of \<open>calculate_usd_for_target_inr\<close> equals
  \<open>targetINR\<close>. The functions compute on binary64, where this fails. For a target of 1 INR
  at rate 49, with no fee and no tax, the inverse returns the float nearest to \<open>1/49\<close> and
  the forward function returns \<open>1 - 2\<^sup>-\<^sup>5\<^sup>3\<close> for it (printed 0.9999999999999999). For a
  target of 1 INR at rate 1 with a fixed fee of \<open>10\<^sup>1\<^sup>7\<close> USD the inverse returns \<open>10\<^sup>1\<^sup>7\<close>,
  the target being absorbed by the fee, and the forward function returns 0 for it.
\<close>

theorem round_trip_f64_counterexample:
  "1 - (0::real) / 100 \<noteq> 0 \<and> (49::real) * (1 - 0 / 100) \<noteq> 0 \<and>
   is_binary64 1 \<and> is_binary64 0 \<and> is_binary64 49 \<and>
   calculate_usd_for_target_inr_f64 (Num 1) (Num 0) (Num 0) (Num 0) (Num 49) [] =
     Inr (Num (5882252574524729 / 2 ^ 58), []) \<and>
   calculate_inr_from_usd_f64 (Num (5882252574524729 / 2 ^ 58)) (Num 0) (Num 0) (Num 0)
     (Num 49) = Inr (Num (1 - 1 / 2 ^ 53)) \<and>
   1 - 1 / 2 ^ 53 \<noteq> (1::real) \<and>
   (1::real) * (1 - 0 / 100) \<noteq> 0 \<and> is_binary64 (10 ^ 17) \<and>
   calculate_usd_for_target_inr_f64 (Num 1) (Num 0) (Num (10 ^ 17)) (Num 0) (Num 1) [] =
     Inr (Num (10 ^ 17), []) \<and>
   calculate_inr_from_usd_f64 (Num (10 ^ 17)) (Num 0) (Num (10 ^ 17)) (Num 0) (Num 1) =
     Inr (Num 0)"
  by (simp add: calculate_usd_for_target_inr_f64_def calculate_inr_from_usd_f64_def
        py_truediv_f64_def is_binary64_def round64_eval)

text \<open>
  The error of the round trip on binary64. Each of the eight operations between the target
  and the result multiplies its exact result by a factor within \<open>2\<^sup>-\<^sup>5\<^sup>3\<close> of 1; the two
  complements \<open>1 - feePercent/100\<close> and \<open>1 - taxPercent/100\<close> are the same floats in both
  functions. The factors gather into an error of at most \<open>T / 2\<^sup>4\<^sup>9 + f * s * R / 2\<^sup>5\<^sup>0\<close>.
\<close>

lemma round_trip_f64_error:
  assumes T: "1 \<le> T" "T \<le> 10 ^ 15"
    and fee: "0 \<le> feePercent" "feePercent \<le> 99"
    and f: "0 \<le> f" "f \<le> 1000"
    and tax: "0 \<le> taxPercent" "taxPercent \<le> 99"
    and R: "1 \<le> R" "R \<le> 1000"
  shows "\<exists>y r.
           calculate_usd_for_target_inr_f64 (Num T) (Num feePercent) (Num f)
             (Num taxPercent) (Num R) pg = Inr (Num y, pg) \<and>
           calculate_inr_from_usd_f64 (Num y) (Num feePercent) (Num f)
             (Num taxPercent) (Num R) = Inr (Num r) \<and>
           \<bar>r - T\<bar> \<le> T / 10 ^ 9"
proof -
  obtain p c where p: "f64_div (Num feePercent) (Num 100) = Num p"
      and c: "f64_sub (Num 1) (Num p) = Num c" and c0: "1 / 128 \<le> c" and c1: "c \<le> 1"
    using percent_complement_range [OF fee] by blast
  obtain t s where t: "f64_div (Num taxPercent) (Num 100) = Num t"
      and s: "f64_sub (Num 1) (Num t) = Num s" and s0: "1 / 128 \<le> s" and s1: "s \<le> 1"
    using percent_complement_range [OF tax] by blast
  have cpos: "0 < c" and spos: "0 < s" using c0 s0 by simp_all
  have "1 * (1 / 128) \<le> R * s" using R s0 by (intro mult_mono) simp_all
  moreover have "R * s \<le> 1000 * 1" using R s1 spos by (intro mult_mono) simp_all
  ultimately obtain k0 where d: "round64 (R * s) = Num (R * s * k0)"
      and k0: "near (1 / 2 ^ 53) k0"
      and d0: "1 * (1 / 128) / 2 \<le> R * s * k0" and d1: "R * s * k0 \<le> 1000 * 1 * 2"
    using round64_rel_range [of "1 * (1 / 128)" "R * s" "1000 * 1"] by auto
  define d where "d = R * s * k0"
  have dpos: "0 < d" using d0 by (simp add: d_def)
  have "1 / 2000 \<le> T / d" using T d1 dpos by (intro frac_le) (simp_all add: d_def)
  moreover have "T / d \<le> 10 ^ 15 / (1 / 256)"
    using T d0 by (intro frac_le) (simp_all add: d_def)
  ultimately obtain k1 where w: "round64 (T / d) = Num (T / d * k1)"
      and k1: "near (1 / 2 ^ 53) k1"
      and w0: "1 / 2000 / 2 \<le> T / d * k1" and w1: "T / d * k1 \<le> 10 ^ 15 / (1 / 256) * 2"
    using round64_rel_range [of "1 / 2000" "T / d" "10 ^ 15 / (1 / 256)"] by auto
  define w where "w = T / d * k1"
  have "1 / 4000 \<le> w + f" using w0 f by (simp add: w_def)
  moreover have "w + f \<le> 10 ^ 18" using w1 f by (simp add: w_def)
  ultimately obtain k2 where z: "round64 (w + f) = Num ((w + f) * k2)"
      and k2: "near (1 / 2 ^ 53) k2"
      and z0: "1 / 4000 / 2 \<le> (w + f) * k2" and z1: "(w + f) * k2 \<le> 10 ^ 18 * 2"
    using round64_rel_range [of "1 / 4000" "w + f" "10 ^ 18"] by auto
  define z where "z = (w + f) * k2"
  have "1 / 8000 / 1 \<le> z / c" using z0 c1 cpos by (intro frac_le) (simp_all add: z_def)
  moreover have "z / c \<le> 10 ^ 18 * 2 / (1 / 128)"
    using z0 z1 c0 by (intro frac_le) (simp_all add: z_def)
  ultimately obtain k3 where y: "round64 (z / c) = Num (z / c * k3)"
      and k3: "near (1 / 2 ^ 53) k3"
    using round64_rel_range [of "1 / 8000 / 1" "z / c" "10 ^ 18 * 2 / (1 / 128)"] by auto
  define y where "y = z / c * k3"
  have yc: "y * c = z * k3" using cpos by (simp add: y_def)
  have z': "1 / 8000 \<le> z" "z \<le> 10 ^ 18 * 2" using z0 z1 by (simp_all add: z_def)
  have "1 / 8000 / 2 \<le> z * k3" and "z * k3 \<le> 10 ^ 18 * 2 * 2"
    using scale_range [OF k3 z'] by simp_all
  then obtain k4 where n1: "round64 (y * c) = Num (y * c * k4)"
      and k4: "near (1 / 2 ^ 53) k4"
      and n10: "1 / 16000 / 2 \<le> y * c * k4" and n11: "y * c * k4 \<le> 10 ^ 18 * 4 * 2"
    using round64_rel_range [of "1 / 16000" "y * c" "10 ^ 18 * 4"] by (auto simp: yc)
  define n1 where "n1 = y * c * k4"
  define K where "K = k2 * k3 * k4"
  have K: "near (1 / 2 ^ 51) K" unfolding K_def using k2 k3 k4 by (rule near3)
  have n1K: "n1 = (w + f) * K" by (simp add: n1_def yc z_def K_def)
  have Kb: "1 / 2 \<le> K" using K by (rule near_bounds) simp
  have "\<bar>K - 1\<bar> \<le> 1 / 2 ^ 51" using K by (simp add: near_def)
  then have "f * \<bar>K - 1\<bar> \<le> 1000 * (1 / 2 ^ 51)" using f by (intro mult_mono) simp_all
  moreover have "\<bar>f * (K - 1)\<bar> = f * \<bar>K - 1\<bar>" using f by (simp add: abs_mult)
  ultimately have fK: "\<bar>f * (K - 1)\<bar> \<le> 1000 / 2 ^ 51" by simp
  have w0': "1 / 4000 \<le> w" using w0 by (simp add: w_def)
  have "1 / 4000 * (1 / 2) \<le> w * K" using w0' Kb by (intro mult_mono) simp_all
  moreover have "n1 - f = w * K + f * (K - 1)" by (simp add: n1K algebra_simps)
  ultimately have "1 / 16000 \<le> n1 - f" using fK by (simp add: abs_le_iff)
  moreover have "n1 - f \<le> 10 ^ 18 * 8" using n11 f by (simp add: n1_def)
  ultimately obtain k5 where n2: "round64 (n1 - f) = Num ((n1 - f) * k5)"
      and k5: "near (1 / 2 ^ 53) k5"
      and n20: "1 / 16000 / 2 \<le> (n1 - f) * k5" and n21: "(n1 - f) * k5 \<le> 10 ^ 18 * 8 * 2"
    using round64_rel_range [of "1 / 16000" "n1 - f" "10 ^ 18 * 8"] by auto
  define n2 where "n2 = (n1 - f) * k5"
  have "1 / 32000 * (1 / 128) \<le> n2 * s" using n20 s0 by (intro mult_mono) (simp_all add: n2_def)
  moreover have "n2 * s \<le> 10 ^ 18 * 16 * 1"
    using n20 n21 s1 spos by (intro mult_mono) (simp_all add: n2_def)
  ultimately obtain k6 where n3: "round64 (n2 * s) = Num (n2 * s * k6)"
      and k6: "near (1 / 2 ^ 53) k6"
      and n30: "1 / 32000 * (1 / 128) / 2 \<le> n2 * s * k6"
      and n31: "n2 * s * k6 \<le> 10 ^ 18 * 16 * 1 * 2"
    using round64_rel_range [of "1 / 32000 * (1 / 128)" "n2 * s" "10 ^ 18 * 16 * 1"] by auto
  define n3 where "n3 = n2 * s * k6"
  have "1 / 8192000 * 1 \<le> n3 * R" using n30 R by (intro mult_mono) (simp_all add: n3_def)
  moreover have "n3 * R \<le> 10 ^ 18 * 32 * 1000"
    using n30 n31 R by (intro mult_mono) (simp_all add: n3_def)
  ultimately obtain k7 where r: "round64 (n3 * R) = Num (n3 * R * k7)"
      and k7: "near (1 / 2 ^ 53) k7"
    using round64_rel_range [of "1 / 8192000 * 1" "n3 * R" "10 ^ 18 * 32 * 1000"] by auto
  define r where "r = n3 * R * k7"
  have p': "round64 (feePercent / 100) = Num p" and c': "round64 (1 - p) = Num c"
    and t': "round64 (taxPercent / 100) = Num t" and s': "round64 (1 - t) = Num s"
    using p c t s by simp_all
  have d': "round64 (R * s) = Num d" and w': "round64 (T / d) = Num w"
    and z': "round64 (w + f) = Num z" and y': "round64 (z / c) = Num y"
    using d w z y by (simp_all add: d_def w_def z_def y_def)
  have n1': "round64 (y * c) = Num n1" and n2': "round64 (n1 - f) = Num n2"
    and n3': "round64 (n2 * s) = Num n3" and r': "round64 (n3 * R) = Num r"
    using n1 n2 n3 r by (simp_all add: n1_def n2_def n3_def r_def)
  have nz: "d \<noteq> 0" "c \<noteq> 0" using dpos cpos by simp_all
  have inv: "calculate_usd_for_target_inr_f64 (Num T) (Num feePercent) (Num f)
               (Num taxPercent) (Num R) pg = Inr (Num y, pg)"
    by (simp add: calculate_usd_for_target_inr_f64_def py_truediv_f64_def
          Let_def p' c' t' s' d' w' z' y' nz)
  have fwd: "calculate_inr_from_usd_f64 (Num y) (Num feePercent) (Num f)
               (Num taxPercent) (Num R) = Inr (Num r)"
    by (simp add: calculate_inr_from_usd_f64_def py_truediv_f64_def
          Let_def p' c' t' s' n1' n2' n3' r')
  define P where "P = k5 * k6 * k7"
  have P: "near (1 / 2 ^ 51) P" unfolding P_def using k5 k6 k7 by (rule near3)
  define A where "A = k1 * (1 / k0) * K * P"
  have k0b: "1 / 2 \<le> k0" using k0 by (rule near_bounds) simp
  have "near (2 * (1 / 2 ^ 53)) (1 / k0)" using k0 by (rule near_inverse) simp
  from near_mult [OF k1 this] have "near (1 / 2 ^ 51) (k1 * (1 / k0))"
    by (rule near_mono) simp
  from near_mult [OF this K] have "near (1 / 2 ^ 50 + 1 / 2 ^ 102) (k1 * (1 / k0) * K)"
    by (rule near_mono) simp
  from near_mult [OF this P] have "near (1 / 2 ^ 49) (k1 * (1 / k0) * K * P)"
    by (rule near_mono) simp
  then have A: "\<bar>A - 1\<bar> \<le> 1 / 2 ^ 49" by (simp add: A_def near_def)
  have Pb: "\<bar>P\<bar> \<le> 2" using near_bounds [OF P] by (simp add: abs_le_iff)
  have "\<bar>K - 1\<bar> * \<bar>P\<bar> \<le> 1 / 2 ^ 51 * 2"
    using K Pb by (intro mult_mono) (simp_all add: near_def)
  then have KP: "\<bar>(K - 1) * P\<bar> \<le> 1 / 2 ^ 50" by (simp add: abs_mult)
  have fs: "f * s \<le> 1000" using mult_mono [of f 1000 s 1] f s1 spos by simp
  have fsR: "f * s * R \<le> 1000000"
    using mult_mono [of "f * s" 1000 R 1000] fs R f spos by simp
  have fsR0: "0 \<le> f * s * R" using f spos R by simp
  have "f * s * R * \<bar>(K - 1) * P\<bar> \<le> 1000000 * (1 / 2 ^ 50)"
    using mult_mono [OF fsR KP] fsR0 by simp
  moreover have "\<bar>f * s * R * ((K - 1) * P)\<bar> = f * s * R * \<bar>(K - 1) * P\<bar>"
    using fsR0 by (simp only: abs_mult [of "f * s * R"] abs_of_nonneg)
  ultimately have e2: "\<bar>f * s * R * ((K - 1) * P)\<bar> \<le> 10 ^ 6 / 2 ^ 50"
    by simp
  have "T * \<bar>A - 1\<bar> \<le> T * (1 / 2 ^ 49)" using A T by (intro mult_left_mono) simp_all
  moreover have "\<bar>T * (A - 1)\<bar> = T * \<bar>A - 1\<bar>"
    using T(1) by (simp add: abs_mult)
  ultimately have e1: "\<bar>T * (A - 1)\<bar> \<le> T / 2 ^ 49" by simp
  have wsR: "w * s * R = T * (k1 * (1 / k0))"
    using spos R k0b by (simp add: w_def d_def field_simps)
  have "r = (n1 - f) * P * s * R"
    by (simp add: r_def n3_def n2_def P_def algebra_simps)
  also have "\<dots> = (w * s * R) * (K * P) + f * s * R * ((K - 1) * P)"
    by (simp add: n1K algebra_simps)
  also have "\<dots> = T * A + f * s * R * ((K - 1) * P)"
    by (simp only: wsR A_def)
  finally have "r - T = T * (A - 1) + f * s * R * ((K - 1) * P)"
    by (simp add: algebra_simps)
  then have "\<bar>r - T\<bar> \<le> \<bar>T * (A - 1)\<bar> + \<bar>f * s * R * ((K - 1) * P)\<bar>"
    by simp
  also have "\<dots> \<le> T / 2 ^ 49 + 10 ^ 6 / 2 ^ 50"
    using e1 e2 by linarith
  also have "\<dots> \<le> T / 10 ^ 9"
    using T by simp
  finally show ?thesis using inv fwd by blast
qed

text \<open>
  C1, amended: for a target between 1 and \<open>10\<^sup>1\<^sup>5\<close> INR, a fee and a tax between 0 and 99
  percent, a fixed fee between 0 and 1000 USD and a rate between 1 and 1000, the inverse
  function \<open>calculate_usd_for_target_inr\<close> returns a finite number and leaves the page as
  it was, and \<open>calculate_inr_from_usd\<close> applied to that number, with the same parameters,
  returns a finite number within \<open>targetINR * 10\<^sup>-\<^sup>9\<close> of \<open>targetINR\<close>, as computed on
  binary64.
\<close>

theorem round_trip_f64_tolerance:
  assumes "1 \<le> targetINR" and "targetINR \<le> 10 ^ 15"
    and "0 \<le> feePercent" and "feePercent \<le> 99"
    and "0 \<le> fixedFee" and "fixedFee \<le> 1000"
    and "0 \<le> taxPercent" and "taxPercent \<le> 99"
    and "1 \<le> exchangeRate" and "exchangeRate \<le> 1000"
  shows "\<exists>requiredUSD finalINR.
           calculate_usd_for_target_inr_f64 (Num targetINR) (Num feePercent) (Num fixedFee)
             (Num taxPercent) (Num exchangeRate) pg = Inr (Num requiredUSD, pg) \<and>
           calculate_inr_from_usd_f64 (Num requiredUSD) (Num feePercent) (Num fixedFee)
             (Num taxPercent) (Num exchangeRate) = Inr (Num finalINR) \<and>
           \<bar>finalINR - targetINR\<bar> \<le> targetINR / 10 ^ 9"
  using assms by (rule round_trip_f64_error)

text \<open>
  The witness is at the defaults of the form: a target of 10000 INR, the floats nearest to
  4.4 and to 0.30, no tax, rate 82.
\<close>

theorem round_trip_f64_tolerance_witness:
  "(1::real) \<le> 10000 \<and> (10000::real) \<le> 10 ^ 15 \<and>
   (0::real) \<le> 2476979795053773 / 2 ^ 49 \<and> (2476979795053773 / 2 ^ 49 :: real) \<le> 99 \<and>
   (0::real) \<le> 5404319552844595 / 2 ^ 54 \<and> (5404319552844595 / 2 ^ 54 :: real) \<le> 1000 \<and>
   (0::real) \<le> 0 \<and> (0::real) \<le> 99 \<and> (1::real) \<le> 82 \<and> (82::real) \<le> 1000 \<and>
   (\<exists>requiredUSD finalINR.
      calculate_usd_for_target_inr_f64 (Num 10000) (Num (2476979795053773 / 2 ^ 49))
        (Num (5404319552844595 / 2 ^ 54)) (Num 0) (Num 82) [] = Inr (Num requiredUSD, []) \<and>
      calculate_inr_from_usd_f64 (Num requiredUSD) (Num (2476979795053773 / 2 ^ 49))
        (Num (5404319552844595 / 2 ^ 54)) (Num 0) (Num 82) = Inr (Num finalINR) \<and>
      \<bar>finalINR - 10000\<bar> \<le> 10000 / 10 ^ 9)"
proof -
  have h: "(1::real) \<le> 10000" "(10000::real) \<le> 10 ^ 15"
    "(0::real) \<le> 2476979795053773 / 2 ^ 49" "(2476979795053773 / 2 ^ 49 :: real) \<le> 99"
    "(0::real) \<le> 5404319552844595 / 2 ^ 54" "(5404319552844595 / 2 ^ 54 :: real) \<le> 1000"
    "(0::real) \<le> 0" "(0::real) \<le> 99" "(1::real) \<le> 82" "(82::real) \<le> 1000"
    by simp_all
  from round_trip_f64_tolerance [OF h, of "[]"] h show ?thesis
    by blast
qed

section \<open>Monotonicity\<close>

subsection \<open>Over exact arithmetic\<close>

text \<open>
  Over exact arithmetic the forward formula is strictly increasing in the amount when
  \<open>1 - feePercent/100 > 0\<close> and \<open>exchangeRate * (1 - taxPercent/100) > 0\<close>.
\<close>

lemma calculate_inr_from_usd_strict_mono_exact:
  assumes "1 - feePercent / 100 > 0"
    and "exchangeRate * (1 - taxPercent / 100) > 0"
    and "a < b"
  shows "\<exists>x y. calculate_inr_from_usd a feePercent fixedFee taxPercent exchangeRate = Inr x \<and>
               calculate_inr_from_usd b feePercent fixedFee taxPercent exchangeRate = Inr y \<and>
               x < y"
proof -
  let ?c = "1 - feePercent / 100"
  have "a * ?c - fixedFee < b * ?c - fixedFee"
    using assms(1,3) by simp
  moreover have "0 < (1 - taxPercent / 100) * exchangeRate"
    using assms(2) by (simp add: mult.commute)
  ultimately have "(a * ?c - fixedFee) * ((1 - taxPercent / 100) * exchangeRate)
                 < (b * ?c - fixedFee) * ((1 - taxPercent / 100) * exchangeRate)"
    by (rule mult_strict_right_mono)
  then show ?thesis
    by (simp add: calculate_inr_from_usd_Inr mult.assoc)
qed

subsection \<open>On binary64\<close>

text \<open>
  C6, as the specification states it: for non-degenerate parameters with
  \<open>1 - feePercent/100 > 0\<close>, \<open>calculate_inr_from_usd\<close> is strictly increasing in the
  amount. It fails in two ways. With a tax of 200 percent (no fee, rate 1) the parameters
  are non-degenerate and \<open>1 - feePercent/100 = 1\<close>, yet the amounts \<open>0 < 1\<close> give \<open>0\<close> and
  \<open>-1\<close>: the function decreases when \<open>exchangeRate * (1 - taxPercent/100)\<close> is negative. And
  with no fee, no tax, rate 1 and a fixed fee of \<open>10\<^sup>1\<^sup>7\<close> USD, the amounts \<open>1 < 2\<close> both give
  \<open>-10\<^sup>1\<^sup>7\<close>: on binary64 the function is not strictly increasing.
\<close>

theorem monotone_f64_counterexample:
  "1 - (0::real) / 100 > 0 \<and> 1 - (0::real) / 100 \<noteq> 0 \<and> (1::real) * (1 - 200 / 100) \<noteq> 0 \<and>
   is_binary64 0 \<and> is_binary64 1 \<and> is_binary64 200 \<and> (0::real) < 1 \<and>
   calculate_inr_from_usd_f64 (Num 0) (Num 0) (Num 0) (Num 200) (Num 1) = Inr (Num 0) \<and>
   calculate_inr_from_usd_f64 (Num 1) (Num 0) (Num 0) (Num 200) (Num 1) = Inr (Num (- 1)) \<and>
   f64_lt (Num 0) (Num (- 1)) = False \<and>
   (1::real) * (1 - 0 / 100) \<noteq> 0 \<and> is_binary64 2 \<and> is_binary64 (10 ^ 17) \<and> (1::real) < 2 \<and>
   calculate_inr_from_usd_f64 (Num 1) (Num 0) (Num (10 ^ 17)) (Num 0) (Num 1) =
     Inr (Num (- (10 ^ 17))) \<and>
   calculate_inr_from_usd_f64 (Num 2) (Num 0) (Num (10 ^ 17)) (Num 0) (Num 1) =
     Inr (Num (- (10 ^ 17))) \<and>
   f64_lt (Num (- (10 ^ 17))) (Num (- (10 ^ 17))) = False"
  by (simp add: calculate_inr_from_usd_f64_def py_truediv_f64_def is_binary64_def
        round64_eval)

text \<open>
  Rounding is monotone, so each operation of the forward function keeps or reverses the
  order of its argument, and the two multiplications by \<open>1 - taxPercent/100\<close> and by the
  rate reverse it both or neither.
\<close>

lemma calculate_inr_from_usd_f64_nondecreasing:
  assumes "is_binary64 feePercent" and "is_binary64 taxPercent"
    and fee: "f64_lt (Num 0) (f64_sub (Num 1) (f64_div (Num feePercent) (Num 100)))"
    and rate: "f64_lt (Num 0)
                 (f64_mul (Num exchangeRate)
                    (f64_sub (Num 1) (f64_div (Num taxPercent) (Num 100))))"
    and "a < b"
  shows "\<exists>x y.
           calculate_inr_from_usd_f64 (Num a) (Num feePercent) (Num fixedFee)
             (Num taxPercent) (Num exchangeRate) = Inr x \<and>
           calculate_inr_from_usd_f64 (Num b) (Num feePercent) (Num fixedFee)
             (Num taxPercent) (Num exchangeRate) = Inr y \<and>
           f64_le x y"
proof -
  obtain p c where p: "f64_div (Num feePercent) (Num 100) = Num p"
      and c: "f64_sub (Num 1) (Num p) = Num c"
    using percent_fraction_finite [OF assms(1)] by blast
  obtain t s where t: "f64_div (Num taxPercent) (Num 100) = Num t"
      and s: "f64_sub (Num 1) (Num t) = Num s"
    using percent_fraction_finite [OF assms(2)] by blast
  have cpos: "0 < c" using fee by (simp only: p c f64_lt.simps)
  have "0 < exchangeRate * s"
    using rate by (simp only: t s f64_mul.simps round64_pos_imp)
  then consider "0 < s" "0 < exchangeRate" | "s < 0" "exchangeRate < 0"
    by (auto simp: zero_less_mult_iff)
  note signs = this
  let ?n2 = "\<lambda>u. f64_sub (f64_mul (Num u) (Num c)) (Num fixedFee)"
  let ?r = "\<lambda>u. f64_mul (f64_mul (?n2 u) (Num s)) (Num exchangeRate)"
  have "a * c \<le> b * c" using \<open>a < b\<close> cpos by simp
  then have "f64_le (f64_mul (Num a) (Num c)) (f64_mul (Num b) (Num c))"
    by (simp add: round64_mono)
  then have n2: "f64_le (?n2 a) (?n2 b)"
    by (rule f64_sub_mono)
  have "f64_le (?r a) (?r b)"
    using signs
  proof cases
    case 1
    then show ?thesis using n2 by (intro f64_mul_mono_pos)
  next
    case 2
    then show ?thesis using n2 by (intro f64_mul_mono_neg)
  qed
  moreover have "calculate_inr_from_usd_f64 (Num u) (Num feePercent) (Num fixedFee)
             (Num taxPercent) (Num exchangeRate) = Inr (?r u)" for u
    by (simp add: calculate_inr_from_usd_f64_def py_truediv_f64_def p c t s Let_def
             del: f64_div.simps f64_sub.simps f64_mul.simps)
  ultimately show ?thesis by simp
qed

text \<open>
  C6, amended: for finite binary64 parameters with \<open>1 - feePercent/100 > 0\<close> and
  \<open>exchangeRate * (1 - taxPercent/100) > 0\<close>, both as the code computes them,
  \<open>calculate_inr_from_usd\<close> is non-decreasing in the amount: for all finite amounts \<open>a < b\<close>
  the result at \<open>a\<close> is less than or equal to the result at \<open>b\<close> (and neither is NaN).
  The fee and the tax are binary64 numbers; the amounts, the fixed fee and the rate may be
  any finite values, the binary64 numbers among them.
\<close>

theorem calculate_inr_from_usd_f64_mono:
  assumes "is_binary64 feePercent" and "is_binary64 taxPercent"
    and "f64_lt (Num 0) (f64_sub (Num 1) (f64_div (Num feePercent) (Num 100)))"
    and "f64_lt (Num 0)
           (f64_mul (Num exchangeRate)
              (f64_sub (Num 1) (f64_div (Num taxPercent) (Num 100))))"
    and "a < b"
  shows "\<exists>x y.
           calculate_inr_from_usd_f64 (Num a) (Num feePercent) (Num fixedFee)
             (Num taxPercent) (Num exchangeRate) = Inr x \<and>
           calculate_inr_from_usd_f64 (Num b) (Num feePercent) (Num fixedFee)
             (Num taxPercent) (Num exchangeRate) = Inr y \<and>
           f64_le x y"
  using assms by (rule calculate_inr_from_usd_f64_nondecreasing)

text \<open>
  The witness is at the defaults of the form (the floats nearest to 4.4 and to 0.30, no
  tax, rate 82) with the amounts 100 and 200 USD.
\<close>

theorem calculate_inr_from_usd_f64_mono_witness:
  "is_binary64 (2476979795053773 / 2 ^ 49) \<and> is_binary64 0 \<and>
   f64_lt (Num 0) (f64_sub (Num 1) (f64_div (Num (2476979795053773 / 2 ^ 49)) (Num 100))) \<and>
   f64_lt (Num 0) (f64_mul (Num 82) (f64_sub (Num 1) (f64_div (Num 0) (Num 100)))) \<and>
   (100::real) < 200 \<and>
   (\<exists>x y.
      calculate_inr_from_usd_f64 (Num 100) (Num (2476979795053773 / 2 ^ 49))
        (Num (5404319552844595 / 2 ^ 54)) (Num 0) (Num 82) = Inr x \<and>
      calculate_inr_from_usd_f64 (Num 200) (Num (2476979795053773 / 2 ^ 49))
        (Num (5404319552844595 / 2 ^ 54)) (Num 0) (Num 82) = Inr y \<and>
      f64_le x y)"
proof -
  have h1: "is_binary64 (2476979795053773 / 2 ^ 49)" and h2: "is_binary64 0"
    by (simp_all add: is_binary64_def round64_eval)
  have h3: "f64_lt (Num 0)
              (f64_sub (Num 1) (f64_div (Num (2476979795053773 / 2 ^ 49)) (Num 100)))"
    by (simp add: round64_eval)
  have h4: "f64_lt (Num 0) (f64_mul (Num 82) (f64_sub (Num 1) (f64_div (Num 0) (Num 100))))"
    by (simp add: round64_eval)
  have h5: "(100::real) < 200"
    by simp
  from calculate_inr_from_usd_f64_mono
         [where fixedFee = "5404319552844595 / 2 ^ 54", OF h1 h2 h3 h4 h5] h1 h2 h3 h4 h5
  show ?thesis
    by blast
qed

end
